theory Spec2Isabelle
  imports Main "HOL-Library.AList" "HOL-Library.Sublist"
begin

section \<open>JavaScript values\<close>

text \<open>
  The records handled by \<^verbatim>\<open>server/services/import/import.js\<close> are parsed CSV or JSON
  rows: finite trees of plain objects, arrays and scalars. An object is the list of
  its own properties in insertion order. Numbers are the integers (identifiers are
  integers or strings; fractions and NaN are not modelled). Two objects of a batch never
  share a sub-object, so the in-place updates of the source are modelled by returning
  the updated value.
\<close>

datatype jsval =
    Undefined
  | Null
  | Bool bool
  | Num int
  | Str string
  | Arr "jsval list"
  | Obj "(string \<times> jsval) list"

text \<open>What is raised: a \<^verbatim>\<open>TypeError\<close> of the language itself (a property of
  \<^verbatim>\<open>null\<close> or \<^verbatim>\<open>undefined\<close>), or an error raised by a collaborator (the store,
  the schema lookup, the parser), carried with its message.\<close>

datatype error = TypeError | Raised string

text \<open>\<^verbatim>\<open>if (v)\<close>, \<^verbatim>\<open>!v\<close>, \<^verbatim>\<open>a && b\<close>, \<^verbatim>\<open>a || b\<close> test this.\<close>

fun truthy :: "jsval \<Rightarrow> bool" where
  "truthy Undefined = False"
| "truthy Null = False"
| "truthy (Bool b) = b"
| "truthy (Num n) = (n \<noteq> 0)"
| "truthy (Str s) = (s \<noteq> [])"
| "truthy (Arr xs) = True"
| "truthy (Obj fs) = True"

text \<open>\<^verbatim>\<open>Array.isArray(v)\<close>\<close>

fun isArray :: "jsval \<Rightarrow> bool" where
  "isArray (Arr xs) = True"
| "isArray v = False"

text \<open>\<^verbatim>\<open>typeof v === "object"\<close>: true of \<^verbatim>\<open>null\<close> as well.\<close>

fun typeofObject :: "jsval \<Rightarrow> bool" where
  "typeofObject Null = True"
| "typeofObject (Arr xs) = True"
| "typeofObject (Obj fs) = True"
| "typeofObject v = False"

text \<open>The elements of an array, for \<^verbatim>\<open>v.map(...)\<close>.\<close>

fun elements :: "jsval \<Rightarrow> jsval list" where
  "elements (Arr xs) = xs"
| "elements v = []"

text \<open>
  \<^verbatim>\<open>v[k]\<close> for reading. Only own data properties are modelled: nothing is inherited
  from a prototype, and an array or a scalar has no named property.
\<close>

fun getProp :: "jsval \<Rightarrow> string \<Rightarrow> error + jsval" where
  "getProp Undefined k = Inl TypeError"
| "getProp Null k = Inl TypeError"
| "getProp (Obj fs) k = Inr (case map_of fs k of None \<Rightarrow> Undefined | Some v \<Rightarrow> v)"
| "getProp v k = Inr Undefined"

text \<open>
  The effect of a successful \<^verbatim>\<open>v[k] = x\<close> on \<open>v\<close>: an object gets the property, in the
  place it had or at the end. The module is not in strict mode, so the assignment to
  a property of a scalar is dropped silently; a named property put on an array is not
  modelled.
\<close>

fun putProp :: "jsval \<Rightarrow> string \<Rightarrow> jsval \<Rightarrow> jsval" where
  "putProp (Obj fs) k x = Obj (AList.update k x fs)"
| "putProp v k x = v"

text \<open>\<^verbatim>\<open>v[k] = x\<close>\<close>

fun setProp :: "jsval \<Rightarrow> string \<Rightarrow> jsval \<Rightarrow> error + jsval" where
  "setProp Undefined k x = Inl TypeError"
| "setProp Null k x = Inl TypeError"
| "setProp v k x = Inr (putProp v k x)"

text \<open>\<^verbatim>\<open>entry?.id\<close>\<close>

fun optChainId :: "jsval \<Rightarrow> jsval" where
  "optChainId Undefined = Undefined"
| "optChainId Null = Undefined"
| "optChainId entry = (case getProp entry ''id'' of Inl e \<Rightarrow> Undefined | Inr v \<Rightarrow> v)"

text \<open>\<^verbatim>\<open>entries.map((entry) => entry.id)\<close>: raises at the first entry that is
  \<^verbatim>\<open>null\<close> or \<^verbatim>\<open>undefined\<close>.\<close>

fun entryIds :: "jsval list \<Rightarrow> error + jsval list" where
  "entryIds [] = Inr []"
| "entryIds (entry # entries) =
     (case getProp entry ''id'' of
        Inl e \<Rightarrow> Inl e
      | Inr i \<Rightarrow> (case entryIds entries of Inl e \<Rightarrow> Inl e | Inr ids \<Rightarrow> Inr (i # ids)))"

section \<open>The collaborators\<close>

text \<open>A relation attribute of a model, as \<^verbatim>\<open>getModelAttributes(slug, "relation")\<close>
  lists it: the source reads \<^verbatim>\<open>rel.name\<close> and \<^verbatim>\<open>rel.target\<close>.\<close>

record attribute =
  name :: string
  target :: string

text \<open>
  What the module calls and does not define, taken as parameters:
  \<^item> \<open>getModelAttributes slug\<close>: the relation attributes of a model, in schema order
    (the names are the keys of the model's attribute table), or what the lookup raises;
  \<^item> \<open>db_create slug data\<close>: \<^verbatim>\<open>strapi.db.query(slug).create({ data })\<close>;
  \<^item> \<open>db_update slug where data\<close>: \<^verbatim>\<open>strapi.db.query(slug).update({ where, data })\<close>;
  \<^item> \<open>parseInputData format dataRaw slug\<close>: the parsed rows, or what the parser raises.
  The store has a state of any type \<open>'s\<close>; a call gives the entry or an error, and the
  next state. The store does not change the record it is handed.
\<close>

record 's gateway =
  getModelAttributes :: "string \<Rightarrow> error + attribute list"
  db_create :: "string \<Rightarrow> jsval \<Rightarrow> 's \<Rightarrow> (error + jsval) \<times> 's"
  db_update :: "string \<Rightarrow> jsval \<Rightarrow> jsval \<Rightarrow> 's \<Rightarrow> (error + jsval) \<times> 's"
  parseInputData :: "string \<Rightarrow> jsval \<Rightarrow> string \<Rightarrow> error + jsval list"

text \<open>A call issued to the store, with its arguments as they were when it was issued.\<close>

datatype call = Create string jsval | Update string jsval jsval

text \<open>The state the module runs in: the store, and the calls issued so far, oldest first.\<close>

record 's world =
  store :: 's
  calls :: "call list"

definition create :: "'s gateway \<Rightarrow> string \<Rightarrow> jsval \<Rightarrow> 's world \<Rightarrow> (error + jsval) \<times> 's world" where
  "create g slug data w =
     (case db_create g slug data (store w) of
        (r, s) \<Rightarrow> (r, \<lparr>store = s, calls = calls w @ [Create slug data]\<rparr>))"

definition update :: "'s gateway \<Rightarrow> string \<Rightarrow> jsval \<Rightarrow> jsval \<Rightarrow> 's world \<Rightarrow> (error + jsval) \<times> 's world" where
  "update g slug wh data w =
     (case db_update g slug wh data (store w) of
        (r, s) \<Rightarrow> (r, \<lparr>store = s, calls = calls w @ [Update slug wh data]\<rparr>))"

section \<open>updateOrCreate\<close>

text \<open>
  Modelled from the spec: the \<^verbatim>\<open>ObjectBuilder\<close> of \<^verbatim>\<open>libs/objects\<close>, which is not among
  the sources. Lines 60 to 64 extend a new builder with \<^verbatim>\<open>{ id: data.id }\<close> when
  \<^verbatim>\<open>data.id\<close> is truthy, and take the object it has built; the spec gives that object as
  the condition \<^verbatim>\<open>{id: record.id}\<close> of the update. The argument is \<^verbatim>\<open>data.id\<close>.
\<close>

definition whereBuilder :: "jsval \<Rightarrow> jsval" where
  "whereBuilder i = (if truthy i then Obj [(''id'', i)] else Obj [])"

text \<open>
  Lines 60 to 77 of \<^verbatim>\<open>updateOrCreate\<close>, the record's own write: \<^verbatim>\<open>create\<close> when
  \<^verbatim>\<open>where.id\<close> is falsy, and otherwise \<^verbatim>\<open>update\<close>, followed by \<^verbatim>\<open>create\<close> when the entry it
  answered is falsy. The result is the entry or the error, the record, and the world.
\<close>

definition upsert :: "'s gateway \<Rightarrow> string \<Rightarrow> jsval \<Rightarrow> 's world \<Rightarrow> (error + jsval) \<times> jsval \<times> 's world" where
  "upsert g slug data w =
     (case getProp data ''id'' of
        Inl e \<Rightarrow> (Inl e, data, w)
      | Inr i \<Rightarrow>
          (let wh = whereBuilder i
           in case getProp wh ''id'' of
                Inl e \<Rightarrow> (Inl e, data, w)
              | Inr whereId \<Rightarrow>
                  if \<not> truthy whereId then
                    (case create g slug data w of (entry, w') \<Rightarrow> (entry, data, w'))
                  else
                    (case update g slug wh data w of
                       (Inl e, w') \<Rightarrow> (Inl e, data, w')
                     | (Inr entry, w') \<Rightarrow>
                         if \<not> truthy entry then
                           (case create g slug data w' of (entry', w'') \<Rightarrow> (entry', data, w''))
                         else (Inr entry, data, w'))))"

text \<open>
  \<^verbatim>\<open>updateOrCreate(user, slug, data)\<close>, with the two functions it is recursive with and
  the two \<^verbatim>\<open>Promise.all\<close> over a \<^verbatim>\<open>map\<close>:
  \<^item> \<open>allRelations\<close> is \<^verbatim>\<open>relations.map((rel) => updateOrCreateRelation(user, rel, data))\<close>
    awaited by \<^verbatim>\<open>Promise.all\<close>;
  \<^item> \<open>allEntries\<close> is \<^verbatim>\<open>data[relName].map((relData) => updateOrCreate(user, rel.target, relData))\<close>
    awaited by \<^verbatim>\<open>Promise.all\<close>.
  \<^verbatim>\<open>map\<close> starts every task, whether or not an earlier one is rejected, and
  \<^verbatim>\<open>Promise.all\<close> is rejected with one rejection. The function runs the tasks one after
  the other in the order of the array, each to its end, and takes the first error in
  that order. This is a serialisation: the order in which sibling tasks issue their
  calls, and the error that is reported when several tasks raise, are those of the
  serialisation and need not be the program's. The relations of the section on every
  order of the calls cover every schedule, and the function computes one of their
  executions.

  Every task reads \<^verbatim>\<open>data[relName]\<close> when it is started, before anything is awaited, and
  the only writes made by then are those to \<^verbatim>\<open>createdBy\<close> and \<^verbatim>\<open>updatedBy\<close>, which no
  task reads. So a task reads its field in the record as \<^verbatim>\<open>updateOrCreate\<close> received it,
  \<open>data0\<close>, and writes to the record as the tasks before it left it, \<open>data\<close>.

  Each function returns the record (or the elements) as updated in place, also when it
  raises: \<open>putProp data relName v'\<close> on an error path is the nested value of that field
  as the failed reconciliation left it.
\<close>

function updateOrCreate :: "'s gateway \<Rightarrow> jsval \<Rightarrow> string \<Rightarrow> jsval \<Rightarrow> 's world \<Rightarrow> (error + jsval) \<times> jsval \<times> 's world"
  and allRelations :: "'s gateway \<Rightarrow> jsval \<Rightarrow> attribute list \<Rightarrow> jsval \<Rightarrow> jsval \<Rightarrow> 's world \<Rightarrow> error option \<times> jsval \<times> 's world"
  and updateOrCreateRelation :: "'s gateway \<Rightarrow> jsval \<Rightarrow> attribute \<Rightarrow> jsval \<Rightarrow> jsval \<Rightarrow> 's world \<Rightarrow> error option \<times> jsval \<times> 's world"
  and allEntries :: "'s gateway \<Rightarrow> jsval \<Rightarrow> string \<Rightarrow> jsval list \<Rightarrow> 's world \<Rightarrow> (error + jsval list) \<times> jsval list \<times> 's world"
where
  "updateOrCreate g user slug data w =
     (case getModelAttributes g slug of
        Inl e \<Rightarrow> (Inl e, data, w)
      | Inr relations \<Rightarrow>
          (case allRelations g user relations data data w of
             (Some e, data', w') \<Rightarrow> (Inl e, data', w')
           | (None, data', w') \<Rightarrow> upsert g slug data' w'))"
| "allRelations g user [] data0 data w = (None, data, w)"
| "allRelations g user (rel # rels) data0 data w =
     (case updateOrCreateRelation g user rel data0 data w of
        (r, data', w') \<Rightarrow>
          (case allRelations g user rels data0 data' w' of
             (rs, data'', w'') \<Rightarrow>
               ((case r of Some e \<Rightarrow> Some e | None \<Rightarrow> rs), data'', w'')))"
| "updateOrCreateRelation g user rel data0 data w =
     (let relName = name rel
      in if relName \<in> set [''createdBy'', ''updatedBy''] then
           (case getProp user ''id'' of
              Inl e \<Rightarrow> (Some e, data, w)
            | Inr uid \<Rightarrow>
                (case setProp data relName uid of
                   Inl e \<Rightarrow> (Some e, data, w)
                 | Inr data' \<Rightarrow> (None, data', w)))
         else
           (case getProp data0 relName of
              Inl e \<Rightarrow> (Some e, data, w)
            | Inr v \<Rightarrow>
                if truthy v \<and> isArray v then
                  (case allEntries g user (target rel) (elements v) w of
                     (Inl e, relDatas', w') \<Rightarrow> (Some e, putProp data relName (Arr relDatas'), w')
                   | (Inr entries, relDatas', w') \<Rightarrow>
                       (case entryIds entries of
                          Inl e \<Rightarrow> (Some e, putProp data relName (Arr relDatas'), w')
                        | Inr ids \<Rightarrow> (None, putProp data relName (Arr ids), w')))
                else if truthy v \<and> typeofObject v then
                  (case updateOrCreate g user (target rel) v w of
                     (Inl e, v', w') \<Rightarrow> (Some e, putProp data relName v', w')
                   | (Inr entry, v', w') \<Rightarrow>
                       (let i = optChainId entry
                        in (None, putProp data relName (if truthy i then i else Null), w')))
                else (None, data, w)))"
| "allEntries g user slug [] w = (Inr [], [], w)"
| "allEntries g user slug (relData # relDatas) w =
     (case updateOrCreate g user slug relData w of
        (r, relData', w') \<Rightarrow>
          (case allEntries g user slug relDatas w' of
             (rs, relDatas', w'') \<Rightarrow>
               ((case r of
                   Inl e \<Rightarrow> Inl e
                 | Inr entry \<Rightarrow> (case rs of Inl e \<Rightarrow> Inl e | Inr entries \<Rightarrow> Inr (entry # entries))),
                relData' # relDatas', w'')))"
  by pat_completeness auto


section \<open>importData\<close>

text \<open>
  Modelled from the spec: \<^verbatim>\<open>catchError\<close> of \<^verbatim>\<open>server/utils\<close>, which is not among the
  sources. The spec gives it as the isolating boundary in which a record is reconciled:
  an error raised by the call is captured, as \<^verbatim>\<open>Failure{error, data: originalRecordBeforeMutation}\<close>,
  rather than propagated. \<^verbatim>\<open>importData\<close> hands it the function and the record, and
  reads three properties of what it returns: \<^verbatim>\<open>success\<close>, \<^verbatim>\<open>error\<close>, and \<^verbatim>\<open>args\<close>, whose
  first element it reports as the data of the failure. So \<open>args\<close> holds the record as
  the boundary received it, before the call updated it.
\<close>

record catchResult =
  success :: bool
  error :: "error option"
  args :: "jsval list"

definition catchError ::
  "(jsval \<Rightarrow> 'w \<Rightarrow> (error + jsval) \<times> jsval \<times> 'w) \<Rightarrow> jsval \<Rightarrow> 'w \<Rightarrow> catchResult \<times> 'w" where
  "catchError fn datum w =
     (case fn datum w of
        (Inr entry, datum', w') \<Rightarrow> (\<lparr>success = True, error = None, args = [datum]\<rparr>, w')
      | (Inl e, datum', w') \<Rightarrow> (\<lparr>success = False, error = Some e, args = [datum]\<rparr>, w'))"

text \<open>\<^verbatim>\<open>f.args[0]\<close>\<close>

fun arg0 :: "jsval list \<Rightarrow> jsval" where
  "arg0 [] = Undefined"
| "arg0 (a # as) = a"

text \<open>The loop of lines 28 to 35: one result pushed per record, in order.\<close>

fun processAll :: "'s gateway \<Rightarrow> jsval \<Rightarrow> string \<Rightarrow> jsval list \<Rightarrow> 's world \<Rightarrow> catchResult list \<times> 's world" where
  "processAll g user slug [] w = ([], w)"
| "processAll g user slug (datum # data) w =
     (case catchError (updateOrCreate g user slug) datum w of
        (res, w') \<Rightarrow>
          (case processAll g user slug data w' of
             (processed, w'') \<Rightarrow> (res # processed, w'')))"

text \<open>Lines 37 to 39. An entry \<^verbatim>\<open>{ error, data }\<close> of the report is the pair
  \<open>(error, data)\<close>.\<close>

definition failuresOf :: "catchResult list \<Rightarrow> (error option \<times> jsval) list" where
  "failuresOf processed =
     map (\<lambda>f. (error f, arg0 (args f))) (filter (\<lambda>p. \<not> success p) processed)"

record ImportDataRes =
  failures :: "(error option \<times> jsval) list"

text \<open>\<^verbatim>\<open>importData(dataRaw, { slug, format, user })\<close>: the report, or the error of the
  parser, which nothing catches.\<close>

definition importData ::
  "'s gateway \<Rightarrow> jsval \<Rightarrow> string \<Rightarrow> string \<Rightarrow> jsval \<Rightarrow> 's world \<Rightarrow> (error + ImportDataRes) \<times> 's world" where
  "importData g dataRaw slug format user w =
     (case parseInputData g format dataRaw slug of
        Inl e \<Rightarrow> (Inl e, w)
      | Inr data \<Rightarrow>
          (case processAll g user slug data w of
             (processed, w') \<Rightarrow> (Inr \<lparr>failures = failuresOf processed\<rparr>, w')))"

section \<open>Every order of the calls\<close>

text \<open>
  All the tasks of a \<^verbatim>\<open>Promise.all\<close> are started before any of them is awaited, and
  each goes on when the store answers it: the order in which sibling tasks issue their
  calls, and what the store answers, depend on the schedule. The function
  \<open>updateOrCreate\<close> above fixes one order. The relations of this section describe every
  execution in which the relation tasks of a record, and of the records nested in it,
  are all resolved, so that line 60 is reached:
  \<^item> the store may answer a call with anything;
  \<^item> a task issues its calls in its own order, after those of the tasks it awaits;
  \<^item> the calls of sibling tasks are interleaved in any way.
  What happens after a rejection is not described by them.

  An event is a call issued to the store with the answer it got.
\<close>

datatype event = Answered (issued: call) (answer: "error + jsval")

text \<open>The ways to interleave the traces of sibling tasks: every trace keeps its order.\<close>

fun merges :: "'a list list \<Rightarrow> 'a list set" where
  "merges [] = {[]}"
| "merges (t # ts) = (\<Union>m \<in> merges ts. shuffles t m)"

text \<open>
  Lines 60 to 77, the record's own write, with its calls and their answers: no call
  when \<^verbatim>\<open>data.id\<close> raises; \<^verbatim>\<open>create\<close> when \<^verbatim>\<open>where.id\<close> is falsy; otherwise \<^verbatim>\<open>update\<close>,
  which raises, or answers a truthy entry, or answers a falsy one and is followed by
  \<^verbatim>\<open>create\<close>.
\<close>

inductive upsert_run :: "string \<Rightarrow> jsval \<Rightarrow> event list \<Rightarrow> error + jsval \<Rightarrow> bool"
  for slug :: string and data :: jsval
where
  no_id:
    "getProp data ''id'' = Inl e \<Longrightarrow> upsert_run slug data [] (Inl e)"
| created:
    "getProp data ''id'' = Inr i \<Longrightarrow> \<not> truthy i \<Longrightarrow>
     upsert_run slug data [Answered (Create slug data) a] a"
| update_raised:
    "getProp data ''id'' = Inr i \<Longrightarrow> truthy i \<Longrightarrow>
     upsert_run slug data [Answered (Update slug (whereBuilder i) data) (Inl e)] (Inl e)"
| updated:
    "getProp data ''id'' = Inr i \<Longrightarrow> truthy i \<Longrightarrow> truthy entry \<Longrightarrow>
     upsert_run slug data [Answered (Update slug (whereBuilder i) data) (Inr entry)] (Inr entry)"
| update_missed:
    "getProp data ''id'' = Inr i \<Longrightarrow> truthy i \<Longrightarrow> \<not> truthy entry \<Longrightarrow>
     upsert_run slug data
       [Answered (Update slug (whereBuilder i) data) (Inr entry), Answered (Create slug data) a] a"

code_pred upsert_run .

text \<open>
  \<^verbatim>\<open>updateOrCreate\<close> and \<^verbatim>\<open>updateOrCreateRelation\<close>, rule by rule as the function above is
  written, branch by branch:
  \<^item> \<open>updateOrCreate_run attrs user slug data trace record result\<close>: the relations of
    \<open>data\<close> are resolved, which leaves the record as \<open>record\<close>; then the own write is
    issued, with the result \<open>result\<close>; \<open>trace\<close> is the calls of the relation tasks,
    interleaved, followed by the own calls;
  \<^item> \<open>allRelations_run attrs user relations data0 data traces record\<close>: every relation
    task is resolved, with one trace for each. The names of the attributes of a model
    are the keys of its attribute table, hence distinct (a premise of the first rule):
    the tasks assign to different fields, so that the order of the assignments is
    immaterial, and the rule makes them in the order of the relations;
  \<^item> \<open>updateOrCreateRelation_run attrs user rel data0 data trace data'\<close>: the task of
    one relation is resolved, with the branches of lines 88, 92 and 99;
  \<^item> \<open>allEntries_run attrs user slug relDatas traces entries\<close>: every element of a
    sequence is reconciled and has its entry, with one trace for each.
  \<open>attrs\<close> is \<^verbatim>\<open>getModelAttributes\<close>.
\<close>

inductive updateOrCreate_run ::
    "(string \<Rightarrow> error + attribute list) \<Rightarrow> jsval \<Rightarrow> string \<Rightarrow> jsval \<Rightarrow> event list \<Rightarrow> jsval \<Rightarrow> error + jsval \<Rightarrow> bool"
  and allRelations_run ::
    "(string \<Rightarrow> error + attribute list) \<Rightarrow> jsval \<Rightarrow> attribute list \<Rightarrow> jsval \<Rightarrow> jsval \<Rightarrow> event list list \<Rightarrow> jsval \<Rightarrow> bool"
  and updateOrCreateRelation_run ::
    "(string \<Rightarrow> error + attribute list) \<Rightarrow> jsval \<Rightarrow> attribute \<Rightarrow> jsval \<Rightarrow> jsval \<Rightarrow> event list \<Rightarrow> jsval \<Rightarrow> bool"
  and allEntries_run ::
    "(string \<Rightarrow> error + attribute list) \<Rightarrow> jsval \<Rightarrow> string \<Rightarrow> jsval list \<Rightarrow> event list list \<Rightarrow> jsval list \<Rightarrow> bool"
  for attrs :: "string \<Rightarrow> error + attribute list" and user :: jsval
where
  reconciled:
    "attrs slug = Inr relations \<Longrightarrow>
     distinct (map name relations) \<Longrightarrow>
     allRelations_run attrs user relations data data traces record \<Longrightarrow>
     nested \<in> merges traces \<Longrightarrow>
     upsert_run slug record own result \<Longrightarrow>
     updateOrCreate_run attrs user slug data (nested @ own) record result"
| no_relation:
    "allRelations_run attrs user [] data0 data [] data"
| next_relation:
    "updateOrCreateRelation_run attrs user rel data0 data t data' \<Longrightarrow>
     allRelations_run attrs user rels data0 data' ts data'' \<Longrightarrow>
     allRelations_run attrs user (rel # rels) data0 data (t # ts) data''"
| audit:
    "name rel \<in> set [''createdBy'', ''updatedBy''] \<Longrightarrow>
     getProp user ''id'' = Inr uid \<Longrightarrow>
     setProp data (name rel) uid = Inr data' \<Longrightarrow>
     updateOrCreateRelation_run attrs user rel data0 data [] data'"
| many:
    "name rel \<notin> set [''createdBy'', ''updatedBy''] \<Longrightarrow>
     getProp data0 (name rel) = Inr v \<Longrightarrow>
     truthy v \<and> isArray v \<Longrightarrow>
     allEntries_run attrs user (target rel) (elements v) traces entries \<Longrightarrow>
     t \<in> merges traces \<Longrightarrow>
     entryIds entries = Inr ids \<Longrightarrow>
     updateOrCreateRelation_run attrs user rel data0 data t (putProp data (name rel) (Arr ids))"
| single:
    "name rel \<notin> set [''createdBy'', ''updatedBy''] \<Longrightarrow>
     getProp data0 (name rel) = Inr v \<Longrightarrow>
     \<not> (truthy v \<and> isArray v) \<Longrightarrow>
     truthy v \<and> typeofObject v \<Longrightarrow>
     updateOrCreate_run attrs user (target rel) v t record (Inr entry) \<Longrightarrow>
     updateOrCreateRelation_run attrs user rel data0 data t
       (putProp data (name rel) (if truthy (optChainId entry) then optChainId entry else Null))"
| untouched:
    "name rel \<notin> set [''createdBy'', ''updatedBy''] \<Longrightarrow>
     getProp data0 (name rel) = Inr v \<Longrightarrow>
     \<not> (truthy v \<and> isArray v) \<Longrightarrow>
     \<not> (truthy v \<and> typeofObject v) \<Longrightarrow>
     updateOrCreateRelation_run attrs user rel data0 data [] data"
| no_entry:
    "allEntries_run attrs user slug [] [] []"
| next_entry:
    "updateOrCreate_run attrs user slug relData t record (Inr entry) \<Longrightarrow>
     allEntries_run attrs user slug relDatas ts entries \<Longrightarrow>
     allEntries_run attrs user slug (relData # relDatas) (t # ts) (entry # entries)"

section \<open>A small store for concrete runs\<close>

text \<open>
  An \<^verbatim>\<open>article\<close> has an \<^verbatim>\<open>author\<close> (one \<^verbatim>\<open>person\<close>), \<^verbatim>\<open>tags\<close> (many \<^verbatim>\<open>tag\<close>) and
  \<^verbatim>\<open>createdBy\<close>; a \<^verbatim>\<open>memo\<close> has a \<^verbatim>\<open>note\<close>; a \<^verbatim>\<open>person\<close>, a \<^verbatim>\<open>tag\<close> and a
  \<^verbatim>\<open>note\<close> have no relation. The state of the store is the number of rows that were
  given an identifier, \<open>1, \<dots>, n\<close>; the rows of \<^verbatim>\<open>note\<close> are stored without one. A
  record titled \<^verbatim>\<open>bad\<close> is refused; an update of an identifier that was never given
  out finds no row and answers \<^verbatim>\<open>null\<close>. The parser takes an array for its rows.
\<close>

definition demoAttributes :: "string \<Rightarrow> error + attribute list" where
  "demoAttributes slug =
     (if slug = ''article'' then
        Inr [\<lparr>name = ''author'', target = ''person''\<rparr>,
             \<lparr>name = ''tags'', target = ''tag''\<rparr>,
             \<lparr>name = ''createdBy'', target = ''admin''\<rparr>]
      else if slug = ''memo'' then Inr [\<lparr>name = ''note'', target = ''note''\<rparr>]
      else if slug = ''person'' \<or> slug = ''tag'' \<or> slug = ''note'' then Inr []
      else Inl (Raised ''no such model''))"

definition demoCreate :: "string \<Rightarrow> jsval \<Rightarrow> nat \<Rightarrow> (error + jsval) \<times> nat" where
  "demoCreate slug data n =
     (if getProp data ''title'' = Inr (Str ''bad'') then (Inl (Raised ''invalid''), n)
      else if slug = ''note'' then (Inr data, n)
      else (Inr (putProp data ''id'' (Num (int (Suc n)))), Suc n))"

definition demoUpdate :: "string \<Rightarrow> jsval \<Rightarrow> jsval \<Rightarrow> nat \<Rightarrow> (error + jsval) \<times> nat" where
  "demoUpdate slug wh data n =
     (if getProp data ''title'' = Inr (Str ''bad'') then (Inl (Raised ''invalid''), n)
      else (case getProp wh ''id'' of
              Inr (Num i) \<Rightarrow> if 1 \<le> i \<and> i \<le> int n then (Inr data, n) else (Inr Null, n)
            | _ \<Rightarrow> (Inr Null, n)))"

definition demoParse :: "string \<Rightarrow> jsval \<Rightarrow> string \<Rightarrow> error + jsval list" where
  "demoParse format dataRaw slug =
     (case dataRaw of Arr rows \<Rightarrow> Inr rows | _ \<Rightarrow> Inl (Raised ''not an array''))"

definition demo :: "nat gateway" where
  "demo = \<lparr>getModelAttributes = demoAttributes, db_create = demoCreate,
            db_update = demoUpdate, parseInputData = demoParse\<rparr>"

definition admin :: jsval where
  "admin = Obj [(''id'', Num 7)]"

definition fresh :: "nat world" where
  "fresh = \<lparr>store = 0, calls = []\<rparr>"

text \<open>Two rows: the first is refused by the store after its author was created, the
  second goes through.\<close>

definition badRow :: jsval where
  "badRow = Obj [(''title'', Str ''bad''), (''author'', Obj [(''name'', Str ''ann'')])]"

definition goodRow :: jsval where
  "goodRow = Obj [(''title'', Str ''ok''),
                  (''tags'', Arr [Obj [(''label'', Str ''x'')],
                                  Obj [(''id'', Num 1), (''label'', Str ''y'')]])]"

text \<open>
  Two tags, one with an identifier the store never gave out, and an article with an
  author and a tag; with them, calls and the answers they get in an execution in which
  the store answers the tasks out of the order of the arrays.
\<close>

definition staleTag :: jsval where
  "staleTag = Obj [(''id'', Num 9), (''label'', Str ''y'')]"

definition newTag :: jsval where
  "newTag = Obj [(''label'', Str ''x'')]"

definition updateStale :: event where
  "updateStale = Answered (Update ''tag'' (Obj [(''id'', Num 9)]) staleTag) (Inr Null)"

definition createNew :: event where
  "createNew = Answered (Create ''tag'' newTag) (Inr (Obj [(''label'', Str ''x''), (''id'', Num 1)]))"

definition createStale :: event where
  "createStale = Answered (Create ''tag'' staleTag) (Inr (Obj [(''id'', Num 2), (''label'', Str ''y'')]))"





section \<open>Termination\<close>

text \<open>The recursion follows the nesting of the record: a value read from a record is
  smaller than the record.\<close>

lemma size_map_of:
  "map_of fs k = Some v \<Longrightarrow> size v < Suc (size_list (size_prod (\<lambda>_. 0) size) fs)"
  by (induction fs) (auto split: if_splits)

lemma size_getProp:
  "getProp d k = Inr v \<Longrightarrow> v = Undefined \<or> size v < size d"
  by (cases d) (auto split: option.splits dest: size_map_of)

lemma size_elements: "isArray v \<Longrightarrow> size_list size (elements v) < size v"
  by (cases v) auto

termination updateOrCreate
proof (relation "measures [
     (\<lambda>x. case x of
        Inl (Inl (g, user, slug, data, w)) \<Rightarrow> 2 * size data + 1
      | Inl (Inr (g, user, rels, data0, data, w)) \<Rightarrow> 2 * size data0
      | Inr (Inl (g, user, rel, data0, data, w)) \<Rightarrow> 2 * size data0
      | Inr (Inr (g, user, slug, relDatas, w)) \<Rightarrow> 2 * size_list size relDatas + 1),
     (\<lambda>x. case x of
        Inl (Inl (g, user, slug, data, w)) \<Rightarrow> 0
      | Inl (Inr (g, user, rels, data0, data, w)) \<Rightarrow> Suc (length rels)
      | Inr (Inl (g, user, rel, data0, data, w)) \<Rightarrow> 0
      | Inr (Inr (g, user, slug, relDatas, w)) \<Rightarrow> 0)]", goal_cases)
  case (5 g user rel data0 data w relName v)
  then have "isArray v" and "getProp data0 (name rel) = Inr v"
    by simp_all
  then have "size_list size (elements v) < size v" and "size v < size data0"
    using size_elements [of v] size_getProp [of data0 "name rel" v] by auto
  then show ?case by simp
next
  case (6 g user rel data0 data w relName v)
  then have "truthy v" and "getProp data0 (name rel) = Inr v"
    by simp_all
  then have "size v < size data0"
    using size_getProp [of data0 "name rel" v] by auto
  then show ?case by simp
qed simp_all

declare updateOrCreate.simps [simp del] updateOrCreateRelation.simps [simp del]


lemmas demo_defs = demo_def demoParse_def demoAttributes_def demoCreate_def demoUpdate_def
  admin_def fresh_def badRow_def goodRow_def

lemmas run_defs = importData_def catchError_def failuresOf_def updateOrCreate.simps
  updateOrCreateRelation.simps upsert_def whereBuilder_def create_def update_def

section \<open>Reading and writing properties\<close>

lemma getProp_putProp:
  "getProp (putProp d k x) k' = (if k' = k \<and> (\<exists>fs. d = Obj fs) then Inr x else getProp d k')"
  by (cases d) (simp_all add: update_conv')

lemma setProp_cases:
  "setProp d k x = Inr d' \<Longrightarrow> d' = putProp d k x"
  by (cases d) auto

section \<open>A reconciliation writes relation fields only\<close>

lemma upsert_record: "upsert g slug data w = (r, d, w') \<Longrightarrow> d = data"
  by (auto simp: upsert_def whereBuilder_def Let_def split: sum.splits prod.splits if_splits)

lemma relation_writes_own_field:
  assumes "updateOrCreateRelation g user rel data0 data w = (r, data', w')"
  shows "data' = data \<or> (\<exists>x. data' = putProp data (name rel) x)"
  using assms
  by (auto simp: updateOrCreateRelation.simps Let_def dest: setProp_cases
      split: sum.splits prod.splits if_splits)

lemma relation_other_fields:
  assumes "updateOrCreateRelation g user rel data0 data w = (r, data', w')" and "k \<noteq> name rel"
  shows "getProp data' k = getProp data k"
  using relation_writes_own_field [OF assms(1)] assms(2)
  by (auto simp: getProp_putProp)

lemma allRelations_other_fields:
  "allRelations g user rels data0 data w = (r, data', w') \<Longrightarrow> k \<notin> name ` set rels
     \<Longrightarrow> getProp data' k = getProp data k"
proof (induction rels arbitrary: data w r data' w')
  case Nil
  then show ?case by simp
next
  case (Cons rel rels)
  obtain r1 d1 w1 where step: "updateOrCreateRelation g user rel data0 data w = (r1, d1, w1)"
    by (cases "updateOrCreateRelation g user rel data0 data w") auto
  obtain r2 d2 w2 where rest: "allRelations g user rels data0 d1 w1 = (r2, d2, w2)"
    by (cases "allRelations g user rels data0 d1 w1") auto
  from Cons.prems step rest have "data' = d2" by simp
  moreover have "getProp d2 k = getProp d1 k"
    using Cons.IH [OF rest] Cons.prems(2) by simp
  moreover have "getProp d1 k = getProp data k"
    using relation_other_fields [OF step] Cons.prems(2) by simp
  ultimately show ?case by simp
qed

section \<open>The audit relations\<close>

lemma relation_audit:
  assumes "name rel = ''createdBy'' \<or> name rel = ''updatedBy''" and "getProp user ''id'' = Inr uid"
  shows "updateOrCreateRelation g user rel data0 (Obj fs) w = (None, Obj (AList.update (name rel) uid fs), w)"
  using assms by (auto simp: updateOrCreateRelation.simps)

lemma relation_keeps_object:
  assumes "updateOrCreateRelation g user rel data0 (Obj fs) w = (r, d, w')"
  shows "\<exists>fs'. d = Obj fs'"
  using relation_writes_own_field [OF assms] by auto

lemma relation_keeps_audit:
  assumes "updateOrCreateRelation g user rel data0 (Obj fs) w = (r, d, w')"
    and "getProp user ''id'' = Inr uid"
    and "k = ''createdBy'' \<or> k = ''updatedBy''"
    and "getProp (Obj fs) k = Inr uid"
  shows "getProp d k = Inr uid"
proof (cases "name rel = k")
  case True
  with relation_audit [of rel user uid g data0 fs w] assms show ?thesis
    by (auto simp: update_conv')
next
  case False
  then show ?thesis
    using relation_other_fields [OF assms(1), of k] assms(4) by simp
qed

lemma allRelations_keeps_audit:
  assumes "getProp user ''id'' = Inr uid" and "k = ''createdBy'' \<or> k = ''updatedBy''"
  shows "allRelations g user rels data0 (Obj fs) w = (r, d, w') \<Longrightarrow> getProp (Obj fs) k = Inr uid
    \<Longrightarrow> getProp d k = Inr uid"
proof (induction rels arbitrary: fs w r d w')
  case Nil
  then show ?case by simp
next
  case (Cons rel rels)
  obtain r1 d1 w1 where step: "updateOrCreateRelation g user rel data0 (Obj fs) w = (r1, d1, w1)"
    by (cases "updateOrCreateRelation g user rel data0 (Obj fs) w") auto
  obtain fs1 where d1: "d1 = Obj fs1"
    using relation_keeps_object [OF step] by auto
  obtain r2 d2 w2 where rest: "allRelations g user rels data0 (Obj fs1) w1 = (r2, d2, w2)"
    by (cases "allRelations g user rels data0 (Obj fs1) w1") auto
  have "getProp (Obj fs1) k = Inr uid"
    using relation_keeps_audit [OF step assms Cons.prems(2)] d1 by simp
  from Cons.IH [OF rest this] Cons.prems(1) step rest d1 show ?case by simp
qed

lemma allRelations_sets_audit:
  assumes "getProp user ''id'' = Inr uid" and "name rel = ''createdBy'' \<or> name rel = ''updatedBy''"
  shows "rel \<in> set rels \<Longrightarrow> allRelations g user rels data0 (Obj fs) w = (r, d, w')
    \<Longrightarrow> getProp d (name rel) = Inr uid"
proof (induction rels arbitrary: fs w r d w')
  case Nil
  then show ?case by simp
next
  case (Cons rel' rels)
  obtain r1 d1 w1 where step: "updateOrCreateRelation g user rel' data0 (Obj fs) w = (r1, d1, w1)"
    by (cases "updateOrCreateRelation g user rel' data0 (Obj fs) w") auto
  obtain fs1 where d1: "d1 = Obj fs1"
    using relation_keeps_object [OF step] by auto
  obtain r2 d2 w2 where rest: "allRelations g user rels data0 (Obj fs1) w1 = (r2, d2, w2)"
    by (cases "allRelations g user rels data0 (Obj fs1) w1") auto
  have d: "d = d2"
    using Cons.prems(2) step rest d1 by simp
  show ?case
  proof (cases "rel \<in> set rels")
    case True
    from Cons.IH [OF True rest] d show ?thesis by simp
  next
    case False
    with Cons.prems(1) have "rel' = rel" by simp
    with step relation_audit [OF assms(2,1), of g data0 fs w] d1
    have "getProp (Obj fs1) (name rel) = Inr uid"
      by (auto simp: update_conv')
    from allRelations_keeps_audit [OF assms(1,2) rest this] d show ?thesis by simp
  qed
qed

section \<open>The entries of a many-valued relation\<close>

lemma entryIds_ids:
  "entryIds entries = Inr ids \<Longrightarrow> list_all2 (\<lambda>entry i. getProp entry ''id'' = Inr i) entries ids"
  by (induction entries arbitrary: ids) (auto split: sum.splits)

text \<open>To reconcile \<^verbatim>\<open>null\<close> raises, whatever the model.\<close>

lemma updateOrCreate_Null: "\<exists>e. fst (updateOrCreate g user slug Null w) = Inl e"
proof (cases "getModelAttributes g slug")
  case (Inl e)
  then show ?thesis by (simp add: updateOrCreate.simps)
next
  case (Inr rels)
  show ?thesis
  proof (cases rels)
    case Nil
    with Inr show ?thesis by (simp add: updateOrCreate.simps upsert_def)
  next
    case (Cons rel rels')
    obtain r1 d1 w1 where step: "updateOrCreateRelation g user rel Null Null w = (r1, d1, w1)"
      by (cases "updateOrCreateRelation g user rel Null Null w") auto
    then obtain e where "r1 = Some e"
      by (auto simp: updateOrCreateRelation.simps Let_def split: sum.splits if_splits)
    with Inr Cons step show ?thesis
      by (auto simp: updateOrCreate.simps split: prod.splits)
  qed
qed

section \<open>Interleaved traces\<close>



lemma append_in_shuffles: "xs @ ys \<in> shuffles xs ys"
  by (induction xs) (auto simp: Cons_in_shuffles_iff)

lemma concat_in_merges: "concat ts \<in> merges ts"
  by (induction ts) (auto intro: append_in_shuffles)


section \<open>The function computes one of the executions\<close>

lemma upsert_refines:
  assumes "upsert g slug data w = (res, d, w')"
  shows "\<exists>own. upsert_run slug data own res \<and> calls w' = calls w @ map issued own"
proof (cases "getProp data ''id''")
  case (Inl e)
  with assms have "res = Inl e" and "w' = w"
    by (auto simp: upsert_def)
  with upsert_run.no_id [OF Inl, of slug] show ?thesis
    by (intro exI [of _ "[]"]) simp
next
  case (Inr i)
  show ?thesis
  proof (cases "truthy i")
    case False
    obtain a s where c: "db_create g slug data (store w) = (a, s)"
      by (cases "db_create g slug data (store w)") auto
    from assms Inr False c have "res = a" and "calls w' = calls w @ [Create slug data]"
      by (auto simp: upsert_def whereBuilder_def create_def)
    with upsert_run.created [OF Inr False, of slug a] show ?thesis
      by (intro exI [of _ "[Answered (Create slug data) a]"]) simp
  next
    case True
    obtain u s where u: "db_update g slug (whereBuilder i) data (store w) = (u, s)"
      by (cases "db_update g slug (whereBuilder i) data (store w)") auto
    show ?thesis
    proof (cases u)
      case (Inl e)
      from assms Inr True u Inl have "res = Inl e"
        and "calls w' = calls w @ [Update slug (whereBuilder i) data]"
        by (auto simp: upsert_def whereBuilder_def update_def)
      with upsert_run.update_raised [OF Inr True, of slug e] show ?thesis
        by (intro exI [of _ "[Answered (Update slug (whereBuilder i) data) (Inl e)]"]) simp
    next
      case (Inr entry)
      note entry = Inr
      show ?thesis
      proof (cases "truthy entry")
        case True
        from assms \<open>getProp data ''id'' = Inr i\<close> \<open>truthy i\<close> u entry True
        have "res = Inr entry" and "calls w' = calls w @ [Update slug (whereBuilder i) data]"
          by (auto simp: upsert_def whereBuilder_def update_def)
        with upsert_run.updated [OF \<open>getProp data ''id'' = Inr i\<close> \<open>truthy i\<close> True, of slug]
        show ?thesis
          by (intro exI [of _ "[Answered (Update slug (whereBuilder i) data) (Inr entry)]"]) simp
      next
        case False
        obtain a s' where c: "db_create g slug data s = (a, s')"
          by (cases "db_create g slug data s") auto
        from assms \<open>getProp data ''id'' = Inr i\<close> \<open>truthy i\<close> u entry False c
        have "res = a"
          and "calls w' = calls w @ [Update slug (whereBuilder i) data, Create slug data]"
          by (auto simp: upsert_def whereBuilder_def update_def create_def)
        with upsert_run.update_missed [OF \<open>getProp data ''id'' = Inr i\<close> \<open>truthy i\<close> False, of slug a]
        show ?thesis
          by (intro exI [of _ "[Answered (Update slug (whereBuilder i) data) (Inr entry),
                                Answered (Create slug data) a]"]) simp
      qed
    qed
  qed
qed


lemma updateOrCreate_entry_resolved:
  assumes "updateOrCreate g user slug data w = (Inr entry, record, w')"
  shows "\<exists>relations d1 w1. getModelAttributes g slug = Inr relations \<and>
           allRelations g user relations data data w = (None, d1, w1)"
  using assms
  by (auto simp: updateOrCreate.simps split: sum.splits prod.splits option.splits)

lemma runs_of_function:
  "(\<forall>s rs. getModelAttributes g s = Inr rs \<longrightarrow> distinct (map name rs)) \<longrightarrow>
   (\<forall>res record w'. updateOrCreate g user slug data w = (res, record, w') \<longrightarrow>
      (\<exists>relations d1 w1. getModelAttributes g slug = Inr relations \<and>
          allRelations g user relations data data w = (None, d1, w1)) \<longrightarrow>
      (\<exists>trace. updateOrCreate_run (getModelAttributes g) user slug data trace record res \<and>
          calls w' = calls w @ map issued trace))"
  "(\<forall>s rs. getModelAttributes g s = Inr rs \<longrightarrow> distinct (map name rs)) \<longrightarrow>
   (\<forall>data' w'. allRelations g user rels data0 data1 w1 = (None, data', w') \<longrightarrow>
      (\<exists>traces. allRelations_run (getModelAttributes g) user rels data0 data1 traces data' \<and>
          calls w' = calls w1 @ map issued (concat traces)))"
  "(\<forall>s rs. getModelAttributes g s = Inr rs \<longrightarrow> distinct (map name rs)) \<longrightarrow>
   (\<forall>data' w'. updateOrCreateRelation g user rel data2 data3 w2 = (None, data', w') \<longrightarrow>
      (\<exists>t. updateOrCreateRelation_run (getModelAttributes g) user rel data2 data3 t data' \<and>
          calls w' = calls w2 @ map issued t))"
  "(\<forall>s rs. getModelAttributes g s = Inr rs \<longrightarrow> distinct (map name rs)) \<longrightarrow>
   (\<forall>entries ds w'. allEntries g user slug3 relDatas w3 = (Inr entries, ds, w') \<longrightarrow>
      (\<exists>traces. allEntries_run (getModelAttributes g) user slug3 relDatas traces entries \<and>
          calls w' = calls w3 @ map issued (concat traces)))"
proof (induction g user slug data w and g user rels data0 data1 w1 and g user rel data2 data3 w2
    and g user slug3 relDatas w3
    rule: updateOrCreate_allRelations_updateOrCreateRelation_allEntries.induct)
  case (1 g user slug data w)
  show ?case
  proof (intro allI impI)
    fix res rcd w'
    assume wf: "\<forall>s rs. getModelAttributes g s = Inr rs \<longrightarrow> distinct (map name rs)"
    assume run: "updateOrCreate g user slug data w = (res, rcd, w')"
      and "\<exists>relations d1 w1. getModelAttributes g slug = Inr relations \<and>
          allRelations g user relations data data w = (None, d1, w1)"
    then obtain relations d1 w1 where attrs: "getModelAttributes g slug = Inr relations"
      and rels: "allRelations g user relations data data w = (None, d1, w1)"
      by blast
    from wf attrs have dist: "distinct (map name relations)" by blast
    from "1.IH" [OF attrs] wf rels obtain traces where
      tr: "allRelations_run (getModelAttributes g) user relations data data traces d1"
      and c1: "calls w1 = calls w @ map issued (concat traces)"
      by blast
    from run attrs rels have up: "upsert g slug d1 w1 = (res, rcd, w')"
      by (simp add: updateOrCreate.simps)
    then have rec: "rcd = d1"
      by (rule upsert_record)
    from upsert_refines [OF up] obtain own where
      own: "upsert_run slug d1 own res" and c2: "calls w' = calls w1 @ map issued own"
      by blast
    have "updateOrCreate_run (getModelAttributes g) user slug data (concat traces @ own) d1 res"
      using attrs dist tr concat_in_merges own by (rule reconciled)
    with c1 c2 rec show "\<exists>trace. updateOrCreate_run (getModelAttributes g) user slug data trace rcd res \<and>
          calls w' = calls w @ map issued trace"
      by (intro exI [of _ "concat traces @ own"]) simp
  qed
next
  case (2 g user data0 data w)
  show ?case
    by (auto intro: no_relation)
next
  case (3 g user rel rels data0 data w)
  show ?case
  proof (intro allI impI)
    fix data' w'
    assume wf: "\<forall>s rs. getModelAttributes g s = Inr rs \<longrightarrow> distinct (map name rs)"
    assume run: "allRelations g user (rel # rels) data0 data w = (None, data', w')"
    obtain r d1 w1 where step: "updateOrCreateRelation g user rel data0 data w = (r, d1, w1)"
      by (cases "updateOrCreateRelation g user rel data0 data w") auto
    obtain rs d2 w2 where rest: "allRelations g user rels data0 d1 w1 = (rs, d2, w2)"
      by (cases "allRelations g user rels data0 d1 w1") auto
    from run step rest have r: "r = None" and rs: "rs = None" and d: "data' = d2" and w: "w' = w2"
      by (auto split: option.splits)
    from "3.IH"(1) wf step r obtain t where
      t: "updateOrCreateRelation_run (getModelAttributes g) user rel data0 data t d1"
      and c1: "calls w1 = calls w @ map issued t"
      by blast
    from "3.IH"(2) [OF step [symmetric] refl] wf rest rs obtain ts where
      ts: "allRelations_run (getModelAttributes g) user rels data0 d1 ts d2"
      and c2: "calls w2 = calls w1 @ map issued (concat ts)"
      by blast
    from t ts have "allRelations_run (getModelAttributes g) user (rel # rels) data0 data (t # ts) d2"
      by (rule next_relation)
    with c1 c2 d w show "\<exists>traces. allRelations_run (getModelAttributes g) user (rel # rels) data0 data traces data' \<and>
          calls w' = calls w @ map issued (concat traces)"
      by (intro exI [of _ "t # ts"]) simp
  qed
next
  case (4 g user rel data0 data w)
  show ?case
  proof (intro allI impI)
    fix data' w'
    assume wf: "\<forall>s rs. getModelAttributes g s = Inr rs \<longrightarrow> distinct (map name rs)"
    assume run: "updateOrCreateRelation g user rel data0 data w = (None, data', w')"
    show "\<exists>t. updateOrCreateRelation_run (getModelAttributes g) user rel data0 data t data' \<and>
          calls w' = calls w @ map issued t"
    proof (cases "name rel \<in> set [''createdBy'', ''updatedBy'']")
      case True
      with run obtain uid where "getProp user ''id'' = Inr uid"
        and "setProp data (name rel) uid = Inr data'" and "w' = w"
        by (auto simp: updateOrCreateRelation.simps split: sum.splits)
      with True audit [of rel user uid data data' "getModelAttributes g" data0] show ?thesis
        by (intro exI [of _ "[]"]) simp
    next
      case False
      with run obtain v where v: "getProp data0 (name rel) = Inr v"
        by (cases "getProp data0 (name rel)") (auto simp: updateOrCreateRelation.simps)
      consider "truthy v \<and> isArray v" | "\<not> (truthy v \<and> isArray v)" "truthy v \<and> typeofObject v"
        | "\<not> (truthy v \<and> isArray v)" "\<not> (truthy v \<and> typeofObject v)"
        by blast
      then show ?thesis
      proof cases
        case 1
        obtain rs ds w1 where all: "allEntries g user (target rel) (elements v) w = (rs, ds, w1)"
          by (cases "allEntries g user (target rel) (elements v) w") auto
        from run False v 1 all obtain entries ids where rs: "rs = Inr entries"
          and ids: "entryIds entries = Inr ids"
          and d: "data' = putProp data (name rel) (Arr ids)" and w: "w' = w1"
          by (auto simp: updateOrCreateRelation.simps Let_def split: sum.splits)
        from "4.IH"(1) [OF refl False v 1] wf all rs obtain traces where
          tr: "allEntries_run (getModelAttributes g) user (target rel) (elements v) traces entries"
          and c: "calls w1 = calls w @ map issued (concat traces)"
          by auto
        from many [OF False v 1 tr concat_in_merges ids, of data] d c w show ?thesis
          by (intro exI [of _ "concat traces"]) simp
      next
        case 2
        obtain r v' w1 where one: "updateOrCreate g user (target rel) v w = (r, v', w1)"
          by (cases "updateOrCreate g user (target rel) v w") auto
        from run False v 2 one obtain entry where r: "r = Inr entry"
          and d: "data' = putProp data (name rel) (if truthy (optChainId entry) then optChainId entry else Null)"
          and w: "w' = w1"
          by (auto simp: updateOrCreateRelation.simps Let_def split: sum.splits)
        from "4.IH"(2) [OF refl False v 2] wf one r
          updateOrCreate_entry_resolved [of g user "target rel" v w entry v' w1]
        obtain t where
          t: "updateOrCreate_run (getModelAttributes g) user (target rel) v t v' (Inr entry)"
          and c: "calls w1 = calls w @ map issued t"
          by auto
        from single [OF False v 2 t, of data] d c w show ?thesis
          by (intro exI [of _ t]) simp
      next
        case 3
        with run False v have "data' = data" and "w' = w"
          by (auto simp: updateOrCreateRelation.simps)
        with untouched [OF False v 3, of "getModelAttributes g" user data] show ?thesis
          by (intro exI [of _ "[]"]) simp
      qed
    qed
  qed
next
  case (5 g user slug w)
  show ?case
    by (auto intro: no_entry)
next
  case (6 g user slug relData relDatas w)
  show ?case
  proof (intro allI impI)
    fix entries ds w'
    assume wf: "\<forall>s rs. getModelAttributes g s = Inr rs \<longrightarrow> distinct (map name rs)"
    assume run: "allEntries g user slug (relData # relDatas) w = (Inr entries, ds, w')"
    obtain r d1 w1 where one: "updateOrCreate g user slug relData w = (r, d1, w1)"
      by (cases "updateOrCreate g user slug relData w") auto
    obtain rs d2 w2 where rest: "allEntries g user slug relDatas w1 = (rs, d2, w2)"
      by (cases "allEntries g user slug relDatas w1") auto
    from run one rest obtain entry entries' where r: "r = Inr entry" and rs: "rs = Inr entries'"
      and es: "entries = entry # entries'" and w: "w' = w2"
      by (auto split: sum.splits)
    from "6.IH"(1) wf one r updateOrCreate_entry_resolved [of g user slug relData w entry d1 w1]
    obtain t where t: "updateOrCreate_run (getModelAttributes g) user slug relData t d1 (Inr entry)"
      and c1: "calls w1 = calls w @ map issued t"
      by auto
    from "6.IH"(2) [OF one [symmetric] refl] wf rest rs obtain ts where
      ts: "allEntries_run (getModelAttributes g) user slug relDatas ts entries'"
      and c2: "calls w2 = calls w1 @ map issued (concat ts)"
      by blast
    from t ts have "allEntries_run (getModelAttributes g) user slug (relData # relDatas) (t # ts) (entry # entries')"
      by (rule next_entry)
    with c1 c2 es w show "\<exists>traces. allEntries_run (getModelAttributes g) user slug (relData # relDatas) traces entries \<and>
          calls w' = calls w @ map issued (concat traces)"
      by (intro exI [of _ "t # ts"]) simp
  qed
qed


section \<open>What an execution holds\<close>


lemma upsert_run_entry:
  assumes "upsert_run slug data own (Inr entry)"
  shows "\<exists>ev\<in>set own. (issued ev = Create slug data \<or> (\<exists>wh. issued ev = Update slug wh data)) \<and>
           answer ev = Inr entry"
  using assms by cases auto

inductive_cases updateOrCreate_runE: "updateOrCreate_run attrs user slug data trace rcd result"
inductive_cases updateOrCreateRelation_runE: "updateOrCreateRelation_run attrs user rel data0 data t data'"
inductive_cases allEntries_run_NilE: "allEntries_run attrs user slug [] traces entries"
inductive_cases allEntries_run_ConsE: "allEntries_run attrs user slug (relData # relDatas) traces entries"

lemma run_upserted:
  assumes "updateOrCreate_run attrs user slug data t rcd (Inr entry)"
  shows "\<exists>ev\<in>set t. (issued ev = Create slug rcd \<or> (\<exists>wh. issued ev = Update slug wh rcd)) \<and>
           answer ev = Inr entry"
proof -
  from assms obtain nested own where "t = nested @ own" and "upsert_run slug rcd own (Inr entry)"
    by (auto elim: updateOrCreate_runE)
  with upsert_run_entry [of slug rcd own entry] show ?thesis by auto
qed





lemma allEntries_run_nth:
  "allEntries_run attrs user slug relDatas traces entries \<Longrightarrow>
   length traces = length relDatas \<and> length entries = length relDatas \<and>
   (\<forall>i<length relDatas. \<exists>rcd.
       updateOrCreate_run attrs user slug (relDatas ! i) (traces ! i) rcd (Inr (entries ! i)))"
proof (induction relDatas arbitrary: traces entries)
  case Nil
  then show ?case by (auto elim: allEntries_run_NilE)
next
  case (Cons relData relDatas)
  from Cons.prems obtain t ts rcd entry entries' where
    tr: "traces = t # ts" and es: "entries = entry # entries'"
    and one: "updateOrCreate_run attrs user slug relData t rcd (Inr entry)"
    and rest: "allEntries_run attrs user slug relDatas ts entries'"
    by (auto elim: allEntries_run_ConsE)
  from Cons.IH [OF rest] one tr es show ?case
    by (auto simp: nth_Cons split: nat.splits)
qed





section \<open>The batch\<close>

lemma failuresOf_Nil: "failuresOf [] = []"
  by (simp add: failuresOf_def)

lemma failuresOf_Cons:
  "failuresOf (p # ps) = (if success p then failuresOf ps else (error p, arg0 (args p)) # failuresOf ps)"
  by (simp add: failuresOf_def)

lemma failuresOf_append: "failuresOf (ps @ qs) = failuresOf ps @ failuresOf qs"
  by (simp add: failuresOf_def)

lemma processAll_length:
  "processAll g user slug data w = (processed, w') \<Longrightarrow> length processed = length data"
  by (induction data arbitrary: w processed w') (auto split: prod.splits)

lemma processAll_append:
  "processAll g user slug (xs @ ys) w =
     (case processAll g user slug xs w of
        (ps, w1) \<Rightarrow> (case processAll g user slug ys w1 of (qs, w2) \<Rightarrow> (ps @ qs, w2)))"
  by (induction xs arbitrary: w) (auto split: prod.splits)

lemma processAll_raised:
  assumes "updateOrCreate g user slug datum w = (Inl e, datum', w1)"
    and "processAll g user slug rest w1 = (qs, w2)"
  shows "processAll g user slug (datum # rest) w =
           (\<lparr>success = False, error = Some e, args = [datum]\<rparr> # qs, w2)"
  using assms by (simp add: catchError_def)

text \<open>The data of the failures are the records whose result is a failure.\<close>

lemma processAll_data:
  "processAll g user slug data w = (processed, w') \<Longrightarrow>
   map snd (failuresOf processed) =
     map fst (filter (\<lambda>(datum, p). \<not> success p) (zip data processed))"
proof (induction data arbitrary: w processed w')
  case Nil
  then show ?case by (simp add: failuresOf_Nil)
next
  case (Cons datum data)
  obtain r d1 w1 where one: "updateOrCreate g user slug datum w = (r, d1, w1)"
    by (cases "updateOrCreate g user slug datum w") auto
  obtain ps w2 where rest: "processAll g user slug data w1 = (ps, w2)"
    by (cases "processAll g user slug data w1") auto
  from Cons.IH [OF rest] Cons.prems one rest show ?case
    by (cases r) (auto simp: catchError_def failuresOf_Cons)
qed

text \<open>The entries of the report are, in order, those of the records whose reconciliation
  raised: each carries the error and the record as it was handed over.\<close>

lemma processAll_failures:
  "processAll g user slug data w = (processed, w') \<Longrightarrow>
   \<exists>failing. subseq failing data \<and>
     list_all2 (\<lambda>datum f. \<exists>w0 e datum' w1.
        updateOrCreate g user slug datum w0 = (Inl e, datum', w1) \<and> f = (Some e, datum))
       failing (failuresOf processed)"
proof (induction data arbitrary: w processed w')
  case Nil
  then show ?case by (simp add: failuresOf_Nil)
next
  case (Cons datum data)
  obtain r d1 w1 where one: "updateOrCreate g user slug datum w = (r, d1, w1)"
    by (cases "updateOrCreate g user slug datum w") auto
  obtain ps w2 where rest: "processAll g user slug data w1 = (ps, w2)"
    by (cases "processAll g user slug data w1") auto
  from Cons.IH [OF rest] obtain failing where sub: "subseq failing data"
    and all: "list_all2 (\<lambda>datum f. \<exists>w0 e datum' w1.
        updateOrCreate g user slug datum w0 = (Inl e, datum', w1) \<and> f = (Some e, datum))
       failing (failuresOf ps)"
    by blast
  show ?case
  proof (cases r)
    case (Inl e)
    with Cons.prems one rest
    have "failuresOf processed = (Some e, datum) # failuresOf ps"
      by (auto simp: catchError_def failuresOf_Cons)
    moreover have "subseq (datum # failing) (datum # data)"
      using sub by simp
    ultimately show ?thesis
      using all one Inl by (intro exI [of _ "datum # failing"]) auto
  next
    case (Inr entry)
    with Cons.prems one rest
    have "failuresOf processed = failuresOf ps"
      by (auto simp: catchError_def failuresOf_Cons)
    moreover have "subseq failing (datum # data)"
      using sub by (rule list_emb_Cons)
    ultimately show ?thesis
      using all by auto
  qed
qed

section \<open>Concrete runs\<close>

lemma demo_parse: "parseInputData demo ''json'' (Arr [badRow, goodRow]) ''article'' = Inr [badRow, goodRow]"
  by (simp add: demo_defs)

lemma demo_attributes:
  "getModelAttributes demo ''article'' =
     Inr [\<lparr>name = ''author'', target = ''person''\<rparr>, \<lparr>name = ''tags'', target = ''tag''\<rparr>,
          \<lparr>name = ''createdBy'', target = ''admin''\<rparr>]"
  by (simp add: demo_defs)

lemma demo_badRow:
  "updateOrCreate demo admin ''article'' badRow fresh =
     (Inl (Raised ''invalid''),
      Obj [(''title'', Str ''bad''), (''author'', Num 1), (''createdBy'', Num 7)],
      \<lparr>store = 1,
       calls = [Create ''person'' (Obj [(''name'', Str ''ann'')]),
                Create ''article'' (Obj [(''title'', Str ''bad''), (''author'', Num 1),
                                        (''createdBy'', Num 7)])]\<rparr>)"
  by (simp add: demo_defs run_defs)

lemma demo_import:
  "importData demo (Arr [badRow, goodRow]) ''article'' ''json'' admin fresh =
     (Inr \<lparr>failures = [(Some (Raised ''invalid''), badRow)]\<rparr>,
      \<lparr>store = 3,
       calls = [Create ''person'' (Obj [(''name'', Str ''ann'')]),
                Create ''article'' (Obj [(''title'', Str ''bad''), (''author'', Num 1),
                                        (''createdBy'', Num 7)]),
                Create ''tag'' (Obj [(''label'', Str ''x'')]),
                Update ''tag'' (Obj [(''id'', Num 1)]) (Obj [(''id'', Num 1), (''label'', Str ''y'')]),
                Create ''article'' (Obj [(''title'', Str ''ok''), (''tags'', Arr [Num 2, Num 1]),
                                        (''createdBy'', Num 7)])]\<rparr>)"
  by (simp add: demo_defs run_defs)

lemma demo_tag_attributes: "getModelAttributes demo ''tag'' = Inr []"
  by (simp add: demo_defs)

lemma demo_tag_relations:
  "allRelations demo admin [] (Obj [(''id'', Num 9)]) (Obj [(''id'', Num 9)]) fresh =
     (None, Obj [(''id'', Num 9)], fresh)"
  by simp

lemma demo_audit:
  "updateOrCreate demo admin ''article''
     (Obj [(''title'', Str ''ok''), (''createdBy'', Obj [(''id'', Num 99)])]) fresh =
     (Inr (Obj [(''title'', Str ''ok''), (''createdBy'', Num 7), (''id'', Num 1)]),
      Obj [(''title'', Str ''ok''), (''createdBy'', Num 7)],
      \<lparr>store = 1,
       calls = [Create ''article'' (Obj [(''title'', Str ''ok''), (''createdBy'', Num 7)])]\<rparr>)"
  by (simp add: demo_defs run_defs)

lemma demo_person:
  "updateOrCreate demo admin ''person'' (Obj [(''name'', Str ''ann'')]) fresh =
     (Inr (Obj [(''name'', Str ''ann''), (''id'', Num 1)]), Obj [(''name'', Str ''ann'')],
      \<lparr>store = 1, calls = [Create ''person'' (Obj [(''name'', Str ''ann'')])]\<rparr>)"
  by (simp add: demo_defs run_defs)

lemma demo_note:
  "updateOrCreate demo admin ''note'' (Obj [(''text'', Str ''hi'')]) fresh =
     (Inr (Obj [(''text'', Str ''hi'')]), Obj [(''text'', Str ''hi'')],
      \<lparr>store = 0, calls = [Create ''note'' (Obj [(''text'', Str ''hi'')])]\<rparr>)"
  by (simp add: demo_defs run_defs)

lemmas event_defs = staleTag_def newTag_def updateStale_def createNew_def createStale_def


lemma demo_stale_run:
  "updateOrCreate_run demoAttributes admin ''tag'' staleTag [updateStale, createStale] staleTag
     (Inr (Obj [(''id'', Num 2), (''label'', Str ''y'')]))"
proof -
  have "allRelations_run demoAttributes admin [] staleTag staleTag [] staleTag"
    by (rule no_relation)
  moreover have "upsert_run ''tag'' staleTag [updateStale, createStale]
      (Inr (Obj [(''id'', Num 2), (''label'', Str ''y'')]))"
    using update_missed [of staleTag "Num 9" Null "''tag''" "Inr (Obj [(''id'', Num 2), (''label'', Str ''y'')])"]
    by (simp add: event_defs whereBuilder_def)
  ultimately show ?thesis
    using reconciled [of demoAttributes "''tag''" "[]" admin staleTag "[]" staleTag "[]"
        "[updateStale, createStale]"]
    by (simp add: demoAttributes_def)
qed

lemma demo_new_run:
  "updateOrCreate_run demoAttributes admin ''tag'' newTag [createNew] newTag
     (Inr (Obj [(''label'', Str ''x''), (''id'', Num 1)]))"
proof -
  have "allRelations_run demoAttributes admin [] newTag newTag [] newTag"
    by (rule no_relation)
  moreover have "upsert_run ''tag'' newTag [createNew]
      (Inr (Obj [(''label'', Str ''x''), (''id'', Num 1)]))"
    using created [of newTag Undefined "''tag''" "Inr (Obj [(''label'', Str ''x''), (''id'', Num 1)])"]
    by (simp add: event_defs)
  ultimately show ?thesis
    using reconciled [of demoAttributes "''tag''" "[]" admin newTag "[]" newTag "[]" "[createNew]"]
    by (simp add: demoAttributes_def)
qed

lemma demo_interleaved:
  "updateOrCreateRelation_run demoAttributes admin \<lparr>name = ''tags'', target = ''tag''\<rparr>
     (Obj [(''tags'', Arr [staleTag, newTag])]) (Obj [(''tags'', Arr [staleTag, newTag])])
     [updateStale, createNew, createStale]
     (Obj [(''tags'', Arr [Num 2, Num 1])])"
proof -
  have "allEntries_run demoAttributes admin ''tag'' [staleTag, newTag]
          [[updateStale, createStale], [createNew]]
          [Obj [(''id'', Num 2), (''label'', Str ''y'')], Obj [(''label'', Str ''x''), (''id'', Num 1)]]"
    by (rule next_entry [OF demo_stale_run next_entry [OF demo_new_run no_entry]])
  moreover have "[updateStale, createNew, createStale]
      \<in> merges [[updateStale, createStale], [createNew]]"
    by simp
  ultimately show ?thesis
    using many [of "\<lparr>name = ''tags'', target = ''tag''\<rparr>" "Obj [(''tags'', Arr [staleTag, newTag])]"
        "Arr [staleTag, newTag]" demoAttributes admin
        "[[updateStale, createStale], [createNew]]"
        "[Obj [(''id'', Num 2), (''label'', Str ''y'')], Obj [(''label'', Str ''x''), (''id'', Num 1)]]"
        "[updateStale, createNew, createStale]" "[Num 2, Num 1]"
        "Obj [(''tags'', Arr [staleTag, newTag])]"]
    by simp
qed





section \<open>The claims\<close>

text \<open>
  Claim C1. For every batch, the data of the entry recorded in the failures for a record
  whose reconciliation raised is the input record exactly as it was before the
  reconciliation began: the data of the failures are, in order, the input records whose
  result is a failure, and not what the reconciliation made of them.
\<close>

theorem failure_data_is_original_record:
  assumes "parseInputData g format dataRaw slug = Inr data"
    and "importData g dataRaw slug format user w = (Inr report, w')"
  shows "map snd (failures report) =
           map fst (filter (\<lambda>(datum, p). \<not> success p)
                      (zip data (fst (processAll g user slug data w)))) \<and>
         subseq (map snd (failures report)) data"
proof -
  obtain processed where run: "processAll g user slug data w = (processed, w')"
    and rep: "failures report = failuresOf processed"
    using assms by (cases "processAll g user slug data w") (auto simp: importData_def)
  have eq: "map snd (failuresOf processed) =
          map fst (filter (\<lambda>(datum, p). \<not> success p) (zip data processed))"
    using processAll_data [OF run] .
  from processAll_failures [OF run] obtain failing where sub: "subseq failing data"
    and all: "list_all2 (\<lambda>datum f. \<exists>w0 e datum' w1.
        updateOrCreate g user slug datum w0 = (Inl e, datum', w1) \<and> f = (Some e, datum))
       failing (failuresOf processed)"
    by blast
  from all have "list_all2 (\<lambda>datum f. snd f = datum) failing (failuresOf processed)"
    by (rule list_all2_mono) auto
  then have "map snd (failuresOf processed) = failing"
    by (induction rule: list_all2_induct) auto
  with sub eq rep run show ?thesis by simp
qed

text \<open>The two rows: the reconciliation of the refused row has replaced its author by an
  identifier and set \<^verbatim>\<open>createdBy\<close>, and the report holds the row as it came.\<close>

theorem failure_data_is_original_record_witness:
  "map snd [(Some (Raised ''invalid''), badRow)] = [badRow] \<and>
   fst (snd (updateOrCreate demo admin ''article'' badRow fresh)) =
     Obj [(''title'', Str ''bad''), (''author'', Num 1), (''createdBy'', Num 7)] \<and>
   fst (snd (updateOrCreate demo admin ''article'' badRow fresh)) \<noteq> badRow"
proof -
  have "processAll demo admin ''article'' [badRow, goodRow] fresh =
          ([\<lparr>success = False, error = Some (Raised ''invalid''), args = [badRow]\<rparr>,
            \<lparr>success = True, error = None, args = [goodRow]\<rparr>],
           snd (processAll demo admin ''article'' [badRow, goodRow] fresh))"
    by (simp add: demo_defs run_defs)
  then show ?thesis
    using failure_data_is_original_record [OF demo_parse demo_import]
    by (simp add: demo_badRow) (simp add: badRow_def)
qed

text \<open>
  Claim C2. For every record passed to \<^verbatim>\<open>updateOrCreate\<close>, once its relations are
  resolved: if the \<^verbatim>\<open>id\<close> of the record is truthy, an update where \<^verbatim>\<open>{id: record.id}\<close>
  is issued first, and a create is issued after it only if the update returned nothing
  (a falsy entry, without raising); if the \<^verbatim>\<open>id\<close> is absent or falsy, a create is
  issued and no update. The \<^verbatim>\<open>id\<close> is that of the input unless \<^verbatim>\<open>id\<close> is itself a
  relation attribute of the model.
\<close>

theorem update_first_then_create:
  assumes "getModelAttributes g slug = Inr relations"
    and "allRelations g user relations data data w = (None, record, w1)"
    and "getProp record ''id'' = Inr i"
  shows "calls (snd (snd (updateOrCreate g user slug data w))) =
     calls w1 @
       (if truthy i then
          Update slug (Obj [(''id'', i)]) record #
            (case fst (db_update g slug (Obj [(''id'', i)]) record (store w1)) of
               Inl e \<Rightarrow> []
             | Inr entry \<Rightarrow> if truthy entry then [] else [Create slug record])
        else [Create slug record])
     \<and> (''id'' \<notin> name ` set relations \<longrightarrow> getProp data ''id'' = Inr i)"
proof -
  have "getProp record ''id'' = getProp data ''id''" if "''id'' \<notin> name ` set relations"
    using allRelations_other_fields [OF assms(2) that] .
  moreover have "calls (snd (snd (upsert g slug record w1))) =
     calls w1 @
       (if truthy i then
          Update slug (Obj [(''id'', i)]) record #
            (case fst (db_update g slug (Obj [(''id'', i)]) record (store w1)) of
               Inl e \<Rightarrow> []
             | Inr entry \<Rightarrow> if truthy entry then [] else [Create slug record])
        else [Create slug record])"
    using assms(3)
    by (cases "db_update g slug (Obj [(''id'', i)]) record (store w1)")
      (auto simp: upsert_def whereBuilder_def create_def update_def Let_def
        split: sum.splits prod.splits)
  ultimately show ?thesis
    using assms by (simp add: updateOrCreate.simps)
qed

text \<open>A tag with an identifier the store never gave out: update, then create.\<close>

theorem update_first_then_create_witness:
  "calls (snd (snd (updateOrCreate demo admin ''tag'' (Obj [(''id'', Num 9)]) fresh))) =
     [Update ''tag'' (Obj [(''id'', Num 9)]) (Obj [(''id'', Num 9)]),
      Create ''tag'' (Obj [(''id'', Num 9)])]
   \<and> getProp (Obj [(''id'', Num 9)]) ''id'' = Inr (Num 9)"
  using update_first_then_create [OF demo_tag_attributes demo_tag_relations, of "Num 9"]
  by (simp add: demo_defs)

text \<open>
  Claim C3. For every input sequence, an error raised while one top-level record is
  reconciled becomes an entry of the report and stops nothing: with the records before
  it giving \<open>ps\<close> and the records after it, run from the world the failure left,
  giving \<open>qs\<close>, \<^verbatim>\<open>importData\<close> returns the report made of the failures of \<open>ps\<close>, the
  entry of the record with its error, and the failures of \<open>qs\<close>, and every record
  after it has its result in \<open>qs\<close>.
\<close>

theorem failure_does_not_stop_batch:
  assumes "parseInputData g format dataRaw slug = Inr (before @ datum # after)"
    and "processAll g user slug before w = (ps, w1)"
    and "updateOrCreate g user slug datum w1 = (Inl e, datum', w2)"
    and "processAll g user slug after w2 = (qs, w3)"
  shows "importData g dataRaw slug format user w =
           (Inr \<lparr>failures = failuresOf ps @ (Some e, datum) # failuresOf qs\<rparr>, w3)
         \<and> length qs = length after"
  using assms processAll_raised [OF assms(3,4)] processAll_length [OF assms(4)]
  by (simp add: importData_def processAll_append failuresOf_append failuresOf_Cons)

text \<open>The refused row first, the good row after it: the good row is still written.\<close>

theorem failure_does_not_stop_batch_witness:
  "importData demo (Arr [badRow, goodRow]) ''article'' ''json'' admin fresh =
     (Inr \<lparr>failures = [(Some (Raised ''invalid''), badRow)]\<rparr>,
      snd (processAll demo admin ''article'' [goodRow]
             (snd (snd (updateOrCreate demo admin ''article'' badRow fresh)))))
   \<and> length (fst (processAll demo admin ''article'' [goodRow]
             (snd (snd (updateOrCreate demo admin ''article'' badRow fresh))))) = 1"
proof -
  have parse: "parseInputData demo ''json'' (Arr [badRow, goodRow]) ''article'' = Inr ([] @ badRow # [goodRow])"
    using demo_parse by simp
  have before: "processAll demo admin ''article'' [] fresh = ([], fresh)"
    by simp
  obtain qs w3 where after: "processAll demo admin ''article'' [goodRow]
      \<lparr>store = 1,
       calls = [Create ''person'' (Obj [(''name'', Str ''ann'')]),
                Create ''article'' (Obj [(''title'', Str ''bad''), (''author'', Num 1),
                                        (''createdBy'', Num 7)])]\<rparr> = (qs, w3)"
    by (rule prod.exhaust)
  have "failuresOf qs = []"
    using after by (auto simp: demo_defs run_defs)
  then show ?thesis
    using failure_does_not_stop_batch [OF parse before demo_badRow after] after
    by (simp add: demo_badRow failuresOf_Nil)
qed

text \<open>
  Claim C4. For every record and every relation attribute named \<^verbatim>\<open>createdBy\<close> or
  \<^verbatim>\<open>updatedBy\<close>, reconciliation sets that field of the record to the identifier of the
  acting user, whatever the input holds there and whatever happens to the other
  relations: the step writes it, and the record has it when \<^verbatim>\<open>updateOrCreate\<close> is done.
\<close>

theorem audit_relation_overwritten:
  assumes "getModelAttributes g slug = Inr relations"
    and "rel \<in> set relations"
    and "name rel = ''createdBy'' \<or> name rel = ''updatedBy''"
    and "getProp user ''id'' = Inr uid"
    and "updateOrCreate g user slug (Obj fs) w = (res, record, w')"
  shows "getProp record (name rel) = Inr uid \<and>
         updateOrCreateRelation g user rel (Obj fs) (Obj fs) w = (None, Obj (AList.update (name rel) uid fs), w)"
proof -
  obtain r1 d1 w1 where rels: "allRelations g user relations (Obj fs) (Obj fs) w = (r1, d1, w1)"
    by (cases "allRelations g user relations (Obj fs) (Obj fs) w") auto
  have "record = d1"
    using assms(1,5) rels upsert_record [of g slug d1 w1]
    by (cases r1; cases "upsert g slug d1 w1") (auto simp: updateOrCreate.simps)
  with allRelations_sets_audit [OF assms(4,3,2) rels] relation_audit [OF assms(3,4)]
  show ?thesis by simp
qed

text \<open>An article that comes with a nested \<^verbatim>\<open>createdBy\<close>: the user's identifier replaces it.\<close>

theorem audit_relation_overwritten_witness:
  "getProp (Obj [(''title'', Str ''ok''), (''createdBy'', Num 7)]) ''createdBy'' = Inr (Num 7) \<and>
   updateOrCreateRelation demo admin \<lparr>name = ''createdBy'', target = ''admin''\<rparr>
     (Obj [(''title'', Str ''ok''), (''createdBy'', Obj [(''id'', Num 99)])])
     (Obj [(''title'', Str ''ok''), (''createdBy'', Obj [(''id'', Num 99)])]) fresh =
     (None, Obj [(''title'', Str ''ok''), (''createdBy'', Num 7)], fresh)"
  using audit_relation_overwritten [OF demo_attributes _ _ _ demo_audit,
      of "\<lparr>name = ''createdBy'', target = ''admin''\<rparr>" "Num 7"]
  by (simp add: admin_def)



text \<open>
  Claim C6. In every execution in which the task of a relation (not an audit relation)
  whose value is a sequence is resolved, the field is replaced with a sequence of
  identifiers, one for each element and in the order of the input: the element at each
  position has been reconciled in this execution, its upsert answered with its entry
  among the calls of the task, and the identifier at that position is the \<^verbatim>\<open>id\<close> of that
  entry. For the empty sequence the task issues no call and the field becomes the empty
  sequence, and such an execution exists.
\<close>

theorem many_relation_identifiers:
  assumes "name rel \<noteq> ''createdBy''" and "name rel \<noteq> ''updatedBy''"
    and "getProp data0 (name rel) = Inr (Arr relDatas)"
  shows "(\<forall>trace data'. updateOrCreateRelation_run attrs user rel data0 data trace data' \<longrightarrow>
           (\<exists>traces entries ids.
               data' = putProp data (name rel) (Arr ids) \<and>
               length traces = length relDatas \<and> length entries = length relDatas \<and>
               length ids = length relDatas \<and>
               trace \<in> merges traces \<and>
               (\<forall>i<length relDatas.
                   getProp (entries ! i) ''id'' = Inr (ids ! i) \<and>
                   (\<exists>rcd. updateOrCreate_run attrs user (target rel) (relDatas ! i) (traces ! i) rcd
                             (Inr (entries ! i)) \<and>
                          (\<exists>ev\<in>set (traces ! i).
                              (issued ev = Create (target rel) rcd \<or>
                               (\<exists>wh. issued ev = Update (target rel) wh rcd)) \<and>
                              answer ev = Inr (entries ! i)))) \<and>
               (relDatas = [] \<longrightarrow> trace = [] \<and> data' = putProp data (name rel) (Arr [])))) \<and>
         (relDatas = [] \<longrightarrow>
            updateOrCreateRelation_run attrs user rel data0 data [] (putProp data (name rel) (Arr [])))"
proof (intro conjI allI impI)
  fix trace data'
  assume run: "updateOrCreateRelation_run attrs user rel data0 data trace data'"
  from run assms obtain traces entries ids where
    all: "allEntries_run attrs user (target rel) relDatas traces entries"
    and m: "trace \<in> merges traces" and ids: "entryIds entries = Inr ids"
    and d: "data' = putProp data (name rel) (Arr ids)"
    by (cases rule: updateOrCreateRelation_runE) auto
  from allEntries_run_nth [OF all] have len: "length traces = length relDatas"
    "length entries = length relDatas"
    and runs: "\<forall>i<length relDatas. \<exists>rcd.
      updateOrCreate_run attrs user (target rel) (relDatas ! i) (traces ! i) rcd (Inr (entries ! i))"
    by auto
  from entryIds_ids [OF ids] have l2: "list_all2 (\<lambda>entry i. getProp entry ''id'' = Inr i) entries ids" .
  then have lids: "length ids = length relDatas"
    using len by (simp add: list_all2_lengthD)
  have each: "getProp (entries ! i) ''id'' = Inr (ids ! i) \<and>
          (\<exists>rcd. updateOrCreate_run attrs user (target rel) (relDatas ! i) (traces ! i) rcd
                    (Inr (entries ! i)) \<and>
                 (\<exists>ev\<in>set (traces ! i).
                     (issued ev = Create (target rel) rcd \<or>
                      (\<exists>wh. issued ev = Update (target rel) wh rcd)) \<and>
                     answer ev = Inr (entries ! i)))" if i: "i < length relDatas" for i
  proof
    from l2 len i show "getProp (entries ! i) ''id'' = Inr (ids ! i)"
      by (simp add: list_all2_conv_all_nth)
    from runs i obtain rcd where
      r: "updateOrCreate_run attrs user (target rel) (relDatas ! i) (traces ! i) rcd (Inr (entries ! i))"
      by blast
    from run_upserted [OF r] r show "\<exists>rcd.
        updateOrCreate_run attrs user (target rel) (relDatas ! i) (traces ! i) rcd (Inr (entries ! i)) \<and>
        (\<exists>ev\<in>set (traces ! i).
            (issued ev = Create (target rel) rcd \<or>
             (\<exists>wh. issued ev = Update (target rel) wh rcd)) \<and>
            answer ev = Inr (entries ! i))"
      by (intro exI [of _ rcd] conjI)
  qed
  have empty: "trace = [] \<and> data' = putProp data (name rel) (Arr [])" if "relDatas = []"
    using that len lids m d by simp
  show "\<exists>traces entries ids.
      data' = putProp data (name rel) (Arr ids) \<and>
      length traces = length relDatas \<and> length entries = length relDatas \<and>
      length ids = length relDatas \<and>
      trace \<in> merges traces \<and>
      (\<forall>i<length relDatas.
          getProp (entries ! i) ''id'' = Inr (ids ! i) \<and>
          (\<exists>rcd. updateOrCreate_run attrs user (target rel) (relDatas ! i) (traces ! i) rcd
                    (Inr (entries ! i)) \<and>
                 (\<exists>ev\<in>set (traces ! i).
                     (issued ev = Create (target rel) rcd \<or>
                      (\<exists>wh. issued ev = Update (target rel) wh rcd)) \<and>
                     answer ev = Inr (entries ! i)))) \<and>
      (relDatas = [] \<longrightarrow> trace = [] \<and> data' = putProp data (name rel) (Arr []))"
    apply (rule exI [of _ traces], rule exI [of _ entries], rule exI [of _ ids])
    using d len lids m each empty apply simp
    done
next
  assume "relDatas = []"
  with assms have v: "getProp data0 (name rel) = Inr (Arr [])"
    and na: "name rel \<notin> set [''createdBy'', ''updatedBy'']"
    by simp_all
  have "allEntries_run attrs user (target rel) (elements (Arr [])) [] []"
    by (simp add: no_entry)
  from many [OF na v _ this, of "[]" "[]" data]
  show "updateOrCreateRelation_run attrs user rel data0 data [] (putProp data (name rel) (Arr []))"
    by simp
qed

text \<open>Two tags, the first with an identifier the store never gave out: its update is
  answered \<^verbatim>\<open>null\<close>, the second tag is created and gets \<open>1\<close>, then the first is created
  and gets \<open>2\<close>. The field becomes \<open>[2, 1]\<close>.\<close>

theorem many_relation_identifiers_witness:
  "\<exists>traces entries ids.
      Obj [(''tags'', Arr [Num 2, Num 1])] =
        putProp (Obj [(''tags'', Arr [staleTag, newTag])]) ''tags'' (Arr ids) \<and>
      length traces = 2 \<and> length entries = 2 \<and> length ids = 2 \<and>
      [updateStale, createNew, createStale] \<in> merges traces \<and>
      (\<forall>i<2.
          getProp (entries ! i) ''id'' = Inr (ids ! i) \<and>
          (\<exists>rcd. updateOrCreate_run demoAttributes admin ''tag'' ([staleTag, newTag] ! i) (traces ! i) rcd
                    (Inr (entries ! i)) \<and>
                 (\<exists>ev\<in>set (traces ! i).
                     (issued ev = Create ''tag'' rcd \<or> (\<exists>wh. issued ev = Update ''tag'' wh rcd)) \<and>
                     answer ev = Inr (entries ! i))))"
  using many_relation_identifiers [where rel = "\<lparr>name = ''tags'', target = ''tag''\<rparr>"
      and ?data0.0 = "Obj [(''tags'', Arr [staleTag, newTag])]"
      and data = "Obj [(''tags'', Arr [staleTag, newTag])]"
      and relDatas = "[staleTag, newTag]" and attrs = demoAttributes and user = admin,
      THEN conjunct1, rule_format, OF _ _ _ demo_interleaved]
  by (simp add: numeral_2_eq_2)

text \<open>
  Claim C7. For every relation attribute (not an audit relation) whose value in the
  record is a single nested record, once the nested record is reconciled the field is
  replaced with a value that is never \<^verbatim>\<open>undefined\<close>: the identifier of the entry when
  it has one (a truthy \<^verbatim>\<open>id\<close>), and \<^verbatim>\<open>null\<close> when the reconciliation yielded no entry.
\<close>

theorem single_relation_identifier:
  assumes "name rel \<noteq> ''createdBy''" and "name rel \<noteq> ''updatedBy''"
    and "getProp data0 (name rel) = Inr (Obj nested)"
    and "updateOrCreate g user (target rel) (Obj nested) w = (Inr entry, nested', w')"
  shows "\<exists>x. updateOrCreateRelation g user rel data0 data w = (None, putProp data (name rel) x, w') \<and>
             x \<noteq> Undefined \<and>
             (entry = Undefined \<or> entry = Null \<longrightarrow> x = Null) \<and>
             (\<forall>i. getProp entry ''id'' = Inr i \<and> truthy i \<longrightarrow> x = i)"
proof -
  let ?i = "optChainId entry"
  let ?x = "if truthy ?i then ?i else Null"
  have "updateOrCreateRelation g user rel data0 data w = (None, putProp data (name rel) ?x, w')"
    using assms by (simp add: updateOrCreateRelation.simps Let_def)
  moreover have "?x \<noteq> Undefined" by auto
  moreover have "?x = Null" if "entry = Undefined \<or> entry = Null"
    using that by auto
  moreover have "?x = i" if "getProp entry ''id'' = Inr i \<and> truthy i" for i
    using that by (cases entry) auto
  ultimately show ?thesis by blast
qed

text \<open>The author of the refused row becomes the identifier of the person.\<close>

theorem single_relation_identifier_witness:
  "\<exists>x. updateOrCreateRelation demo admin \<lparr>name = ''author'', target = ''person''\<rparr>
          (Obj [(''author'', Obj [(''name'', Str ''ann'')])])
          (Obj [(''author'', Obj [(''name'', Str ''ann'')])]) fresh =
          (None, Obj [(''author'', x)],
           \<lparr>store = 1, calls = [Create ''person'' (Obj [(''name'', Str ''ann'')])]\<rparr>) \<and>
        x \<noteq> Undefined \<and> x = Num 1"
  using single_relation_identifier [where rel = "\<lparr>name = ''author'', target = ''person''\<rparr>"
      and ?data0.0 = "Obj [(''author'', Obj [(''name'', Str ''ann'')])]"
      and data = "Obj [(''author'', Obj [(''name'', Str ''ann'')])]"
      and nested = "[(''name'', Str ''ann'')]" and g = demo and user = admin and w = fresh
      and entry = "Obj [(''name'', Str ''ann''), (''id'', Num 1)]"]
    demo_person
  by auto

text \<open>
  Claim C8. For every relation attribute (not an audit relation) whose value in the
  record is \<^verbatim>\<open>null\<close>, absent (read as \<^verbatim>\<open>undefined\<close>) or a scalar, reconciliation leaves
  the record as it is, raises nothing and issues no call: it does not recurse into the
  value. For \<^verbatim>\<open>null\<close> this is the guard at work, since to reconcile \<^verbatim>\<open>null\<close> raises.
\<close>

theorem null_absent_scalar_untouched:
  assumes "name rel \<noteq> ''createdBy''" and "name rel \<noteq> ''updatedBy''"
    and "getProp data0 (name rel) = Inr v"
    and "v = Undefined \<or> v = Null \<or> (\<exists>b. v = Bool b) \<or> (\<exists>n. v = Num n) \<or> (\<exists>s. v = Str s)"
  shows "updateOrCreateRelation g user rel data0 data w = (None, data, w) \<and>
         (\<exists>e. fst (updateOrCreate g user (target rel) Null w) = Inl e)"
  using assms updateOrCreate_Null [of g user "target rel" w]
  by (auto simp: updateOrCreateRelation.simps)

text \<open>An article whose author is \<^verbatim>\<open>null\<close>.\<close>

theorem null_absent_scalar_untouched_witness:
  "updateOrCreateRelation demo admin \<lparr>name = ''author'', target = ''person''\<rparr>
     (Obj [(''title'', Str ''ok''), (''author'', Null)])
     (Obj [(''title'', Str ''ok''), (''author'', Null)]) fresh =
     (None, Obj [(''title'', Str ''ok''), (''author'', Null)], fresh)"
  using null_absent_scalar_untouched [of "\<lparr>name = ''author'', target = ''person''\<rparr>"
      "Obj [(''title'', Str ''ok''), (''author'', Null)]" Null demo admin
      "Obj [(''title'', Str ''ok''), (''author'', Null)]" fresh]
  by simp

text \<open>
  Claim C9. For every input sequence, the failures of the report are at most as many as
  the input records, and they appear in the order in which the failing records appear
  in the input: they are, one for one and in order, the failures of a subsequence of
  the input, each made of what the reconciliation of its record raised and of that
  record.
\<close>

theorem failures_bounded_in_order:
  assumes "parseInputData g format dataRaw slug = Inr data"
    and "importData g dataRaw slug format user w = (Inr report, w')"
  shows "length (failures report) \<le> length data \<and>
    (\<exists>failing. subseq failing data \<and>
       list_all2 (\<lambda>datum f. \<exists>w0 e datum' w1.
          updateOrCreate g user slug datum w0 = (Inl e, datum', w1) \<and> f = (Some e, datum))
         failing (failures report))"
proof -
  obtain processed where run: "processAll g user slug data w = (processed, w')"
    and rep: "failures report = failuresOf processed"
    using assms by (cases "processAll g user slug data w") (auto simp: importData_def)
  from processAll_failures [OF run] obtain failing where sub: "subseq failing data"
    and all: "list_all2 (\<lambda>datum f. \<exists>w0 e datum' w1.
          updateOrCreate g user slug datum w0 = (Inl e, datum', w1) \<and> f = (Some e, datum))
         failing (failuresOf processed)"
    by blast
  have "length (failuresOf processed) = length failing"
    using all by (simp add: list_all2_lengthD)
  also have "\<dots> \<le> length data"
    using sub by (rule list_emb_length)
  finally show ?thesis
    using sub all rep by auto
qed

text \<open>The two rows: one failure for two records.\<close>

theorem failures_bounded_in_order_witness:
  "length [(Some (Raised ''invalid''), badRow)] \<le> length [badRow, goodRow] \<and>
   (\<exists>failing. subseq failing [badRow, goodRow] \<and>
      list_all2 (\<lambda>datum f. \<exists>w0 e datum' w1.
         updateOrCreate demo admin ''article'' datum w0 = (Inl e, datum', w1) \<and> f = (Some e, datum))
        failing [(Some (Raised ''invalid''), badRow)])"
  using failures_bounded_in_order [OF demo_parse demo_import] by simp

text \<open>
  Claim C10. When a single nested relation is reconciled and the store returns an entry
  whose \<^verbatim>\<open>id\<close> is falsy (\<open>0\<close>, the empty string, or missing), the relation field of the
  parent record is set to \<^verbatim>\<open>null\<close> and not to that \<^verbatim>\<open>id\<close>.
\<close>

theorem falsy_identifier_becomes_null:
  assumes "name rel \<noteq> ''createdBy''" and "name rel \<noteq> ''updatedBy''"
    and "getProp data0 (name rel) = Inr (Obj nested)"
    and "updateOrCreate g user (target rel) (Obj nested) w = (Inr entry, nested', w')"
    and "getProp entry ''id'' = Inr i" and "\<not> truthy i"
  shows "updateOrCreateRelation g user rel data0 data w = (None, putProp data (name rel) Null, w')"
proof -
  have "optChainId entry = i"
    using assms(5) by (cases entry) auto
  with assms show ?thesis
    by (simp add: updateOrCreateRelation.simps Let_def)
qed

text \<open>A memo with a note: the note is stored without an identifier.\<close>

theorem falsy_identifier_becomes_null_witness:
  "updateOrCreateRelation demo admin \<lparr>name = ''note'', target = ''note''\<rparr>
     (Obj [(''note'', Obj [(''text'', Str ''hi'')])])
     (Obj [(''note'', Obj [(''text'', Str ''hi'')])]) fresh =
     (None, Obj [(''note'', Null)],
      \<lparr>store = 0, calls = [Create ''note'' (Obj [(''text'', Str ''hi'')])]\<rparr>)"
  using falsy_identifier_becomes_null [where rel = "\<lparr>name = ''note'', target = ''note''\<rparr>"
      and ?data0.0 = "Obj [(''note'', Obj [(''text'', Str ''hi'')])]"
      and data = "Obj [(''note'', Obj [(''text'', Str ''hi'')])]"
      and nested = "[(''text'', Str ''hi'')]" and g = demo and user = admin and w = fresh
      and entry = "Obj [(''text'', Str ''hi'')]" and i = Undefined]
    demo_note
  by simp

end
